theory Spec2Isabelle
  imports Complex_Main
begin

section \<open>RefreshRateCalculator: the estimator state\<close>

text \<open>
  A shallow embedding of the class \<^verbatim>\<open>RefreshRateCalculator\<close> of
  \<^verbatim>\<open>RefreshRateCalculator.js\<close>. JavaScript numbers are modelled as exact reals
  (no rounding error, no overflow); the integer-valued counters are \<open>int\<close>. The few
  places where the JavaScript arithmetic leaves the finite numbers (a division by zero,
  a remainder by zero) are written out as branches: such a value is \<open>NaN\<close> or
  infinite, every comparison with \<open>NaN\<close> is false, and the branch says what the code
  does then.

  The object is a record with one field per property of \<^verbatim>\<open>this\<close> (the leading
  underscore of the JavaScript names is dropped). The diagnostic string \<^verbatim>\<open>_m_vi\<close> is
  either empty or \<^verbatim>\<open>"drift=[min..max]"\<close>; it is modelled as an option holding the two
  numbers, \<open>None\<close> being the empty (falsy) string.
\<close>

record rrc =
  VALIDATEMS :: real
  TIGHTGROUPMS :: real
  MSCHANGE :: real
  MAXSTORE :: nat
  LOWESTVALIDHZ :: real
  nJavaScriptSkip :: int
  cycleCount :: int
  nSkipBase :: int
  nSkip :: int
  tUpdate :: real
  L0 :: real
  L1 :: real
  L2 :: real
  L3 :: real
  L4 :: real
  m_D :: "real list"
  m_S :: "real list"
  m_ms :: real
  m_vi :: "(real \<times> real) option"
  m_tvsync :: real
  m_summs :: real
  m_nms :: int
  m_nChange :: int

subsection \<open>\<^verbatim>\<open>__reset\<close>, the constructor, \<^verbatim>\<open>restartMeasuring\<close>, \<^verbatim>\<open>ignoreNextCycle\<close>\<close>

text \<open>\<^verbatim>\<open>__reset\<close> assigns thirteen groups of fields; the six tuning constants and
  \<^verbatim>\<open>_nJavaScriptSkip\<close> are not among them.\<close>

definition reset :: "rrc \<Rightarrow> rrc" where
  "reset s = s\<lparr>cycleCount := 0, nSkipBase := 0, nSkip := 0, tUpdate := 0,
     L0 := 0, L1 := 0, L2 := 0, L3 := 0, L4 := 0,
     m_D := [], m_S := [], m_ms := 0, m_vi := None, m_tvsync := 0,
     m_summs := 0, m_nms := 0, m_nChange := 0\<rparr>"

definition constructor :: rrc where
  "constructor = reset \<lparr>VALIDATEMS = 100, TIGHTGROUPMS = 1, MSCHANGE = 1,
     MAXSTORE = 5000000, LOWESTVALIDHZ = 35, nJavaScriptSkip = 60,
     cycleCount = 0, nSkipBase = 0, nSkip = 0, tUpdate = 0,
     L0 = 0, L1 = 0, L2 = 0, L3 = 0, L4 = 0,
     m_D = [], m_S = [], m_ms = 0, m_vi = None, m_tvsync = 0,
     m_summs = 0, m_nms = 0, m_nChange = 0\<rparr>"

definition restartMeasuring :: "rrc \<Rightarrow> rrc" where
  "restartMeasuring s = reset s"

text \<open>\<^verbatim>\<open>ignoreNextCycle(cycles = 1)\<close>; the default argument is the caller's
  \<open>ignoreNextCycle 1\<close>.\<close>

definition ignoreNextCycle :: "int \<Rightarrow> rrc \<Rightarrow> rrc" where
  "ignoreNextCycle cycles s = s\<lparr>nSkip := cycles\<rparr>"

subsection \<open>\<^verbatim>\<open>__cut\<close>\<close>

text \<open>The loop of \<^verbatim>\<open>__cut\<close>: \<open>loop\<close> runs over 0, 2, 4, ... below the length and
  \<open>ret\<close> grows at its end.\<close>

function cut_loop :: "'a list \<Rightarrow> nat \<Rightarrow> 'a list \<Rightarrow> 'a list" where
  "cut_loop arr loop ret =
     (if loop < length arr then cut_loop arr (loop + 2) (ret @ [arr ! loop]) else ret)"
  by pat_completeness auto
termination
  by (relation "measure (\<lambda>(arr, loop, ret). length arr - loop)") auto

definition cut :: "'a list \<Rightarrow> 'a list" where
  "cut arr = cut_loop arr 0 []"

subsection \<open>JavaScript arithmetic\<close>

text \<open>\<^verbatim>\<open>Math.round\<close> rounds to the nearest integer, halves upwards.\<close>

definition js_round :: "real \<Rightarrow> int" where
  "js_round x = \<lfloor>x + 1 / 2\<rfloor>"

text \<open>The remainder operator \<^verbatim>\<open>%\<close> truncates the quotient towards zero, so the result
  has the sign of the dividend; by zero it is \<open>NaN\<close> (\<open>None\<close>).\<close>

definition js_trunc :: "real \<Rightarrow> int" where
  "js_trunc x = (if 0 \<le> x then \<lfloor>x\<rfloor> else \<lceil>x\<rceil>)"

definition js_rem :: "real \<Rightarrow> real \<Rightarrow> real option" where
  "js_rem a b = (if b = 0 then None else Some (a - b * of_int (js_trunc (a / b))))"

subsection \<open>\<^verbatim>\<open>__validate\<close>\<close>

text \<open>The first loop: the running cycle index \<open>X\<close> of every stored sample. The
  recursion carries the previous smoothed sample and the current \<open>X\<close>.\<close>

fun cycle_index_from :: "real \<Rightarrow> real \<Rightarrow> int \<Rightarrow> real list \<Rightarrow> int list" where
  "cycle_index_from ms prev X [] = []"
| "cycle_index_from ms prev X (c # cs) =
     (let X' = X + js_round ((c - prev) / ms) in X' # cycle_index_from ms c X' cs)"

definition cycle_index :: "real \<Rightarrow> real list \<Rightarrow> int list" where
  "cycle_index ms S = (case S of [] \<Rightarrow> [] | c # cs \<Rightarrow> 0 # cycle_index_from ms c 0 cs)"

text \<open>The four sums of the first loop, over the pairs \<open>(X, Y)\<close>.\<close>

record ols =
  sx :: real
  sy :: real
  sxx :: real
  sxy :: real

fun ols_sums :: "ols \<Rightarrow> (int \<times> real) list \<Rightarrow> ols" where
  "ols_sums a [] = a"
| "ols_sums a ((X, Y) # ps) =
     ols_sums \<lparr>sx = sx a + of_int X, sy = sy a + Y,
               sxx = sxx a + of_int (X * X), sxy = sxy a + of_int X * Y\<rparr> ps"

definition ols_points :: "rrc \<Rightarrow> (int \<times> real) list" where
  "ols_points s = zip (cycle_index (m_ms s) (m_S s)) (map (\<lambda>d. d - hd (m_D s)) (m_D s))"

definition ols_of :: "rrc \<Rightarrow> ols" where
  "ols_of s = ols_sums \<lparr>sx = 0, sy = 0, sxx = 0, sxy = 0\<rparr> (ols_points s)"

text \<open>The common denominator of the two quotients \<open>m\<close> and \<open>b\<close>.\<close>

definition ols_den :: "rrc \<Rightarrow> real" where
  "ols_den s = (let a = ols_of s; N = real (length (m_D s)) in N * sxx a - sx a * sx a)"

definition ols_m :: "rrc \<Rightarrow> real" where
  "ols_m s = (let a = ols_of s; N = real (length (m_D s))
     in (N * sxy a - sx a * sy a) / (N * sxx a - sx a * sx a))"

definition ols_b :: "rrc \<Rightarrow> real" where
  "ols_b s = (let a = ols_of s; N = real (length (m_D s))
     in (sxx a * sy a - sx a * sxy a) / (N * sxx a - sx a * sx a))"

text \<open>The candidate timebase \<open>tb\<close>.\<close>

definition timebase :: "rrc \<Rightarrow> real" where
  "timebase s = hd (m_D s) + ols_b s"

text \<open>The residual of one raw sample against timebase \<open>tb\<close> and interval \<open>ms\<close>.\<close>

definition offset :: "real \<Rightarrow> real \<Rightarrow> real \<Rightarrow> real option" where
  "offset ms tb d = (case js_rem (d - tb + ms / 2) ms of
       None \<Rightarrow> None | Some r \<Rightarrow> Some (r - ms / 2))"

text \<open>The second loop: \<open>min\<close> and \<open>max\<close> start at 0 and the loop starts at index 1.
  \<^verbatim>\<open>Math.min\<close> and \<^verbatim>\<open>Math.max\<close> return \<open>NaN\<close> as soon as an argument is
  \<open>NaN\<close>.\<close>

fun drift_loop :: "real \<Rightarrow> real \<Rightarrow> (real \<times> real) option \<Rightarrow> real list
    \<Rightarrow> (real \<times> real) option" where
  "drift_loop ms tb acc [] = acc"
| "drift_loop ms tb acc (d # ds) =
     drift_loop ms tb
       (case (acc, offset ms tb d) of
          (Some (mn, mx), Some off) \<Rightarrow> Some (min mn off, max mx off)
        | _ \<Rightarrow> None) ds"

definition drift :: "real \<Rightarrow> real \<Rightarrow> real list \<Rightarrow> (real \<times> real) option" where
  "drift ms tb D = drift_loop ms tb (Some (0, 0)) (tl D)"

text \<open>\<^verbatim>\<open>__validate\<close> returns the new object and the string \<open>ret\<close>. Where
  \<^verbatim>\<open>_m_ms\<close> is zero on entry or the denominator is zero, the quotients of the
  JavaScript are \<open>NaN\<close> or infinite, the comparison \<^verbatim>\<open>max - min < halfms\<close> is
  false and the else-branch resets; likewise when a remainder by a zero slope makes
  \<open>min\<close> and \<open>max\<close> \<open>NaN\<close>.\<close>

definition validate :: "rrc \<Rightarrow> rrc \<times> (real \<times> real) option" where
  "validate s =
     (if m_ms s = 0 \<or> ols_den s = 0 then (reset s, None)
      else
        let m = ols_m s;
            tb = timebase s;
            halfms = m / 2
        in case drift m tb (m_D s) of
             None \<Rightarrow> (reset s, None)
           | Some (mn, mx) \<Rightarrow>
               if mx - mn < halfms
               then (s\<lparr>m_ms := m, m_tvsync := tb + mn\<rparr>, Some (mn, mx))
               else (reset s, None))"

subsection \<open>\<^verbatim>\<open>__add\<close> and \<^verbatim>\<open>countCycle\<close>\<close>

text \<open>The first six statements: the cycle counter and the window shift.\<close>

definition shift :: "rrc \<Rightarrow> real \<Rightarrow> rrc" where
  "shift s tFrame = s\<lparr>cycleCount := cycleCount s + 1,
     L0 := L1 s, L1 := L2 s, L2 := L3 s, L3 := L4 s, L4 := tFrame\<rparr>"

definition grouping :: "rrc \<Rightarrow> real" where
  "grouping s =
     max (max (max (L4 s - L3 s) (L3 s - L2 s)) (L2 s - L1 s)) (L1 s - L0 s)
   - min (min (min (L4 s - L3 s) (L3 s - L2 s)) (L2 s - L1 s)) (L1 s - L0 s)"

definition avems :: "rrc \<Rightarrow> real" where
  "avems s = (L4 s - L0 s) / 4"

text \<open>The skip gates \<^verbatim>\<open>--this._nJavaScriptSkip < 0 && --this._nSkip < 0\<close>: the second
  decrement happens only when the first comparison holds.\<close>

definition gates :: "rrc \<Rightarrow> rrc \<times> bool" where
  "gates s =
     (let s1 = s\<lparr>nJavaScriptSkip := nJavaScriptSkip s - 1\<rparr>
      in if nJavaScriptSkip s1 < 0
         then (let s2 = s1\<lparr>nSkip := nSkip s1 - 1\<rparr> in (s2, nSkip s2 < 0))
         else (s1, False))"

text \<open>The change tracker (the lines from \<^verbatim>\<open>bHzChanged\<close> to the jump start of
  \<^verbatim>\<open>_m_ms\<close>).\<close>

definition bHzChanged :: "rrc \<Rightarrow> bool" where
  "bHzChanged s = (m_nms s > 10 \<and> \<bar>avems s - m_summs s / of_int (m_nms s)\<bar> > MSCHANGE s)"

definition track :: "rrc \<Rightarrow> rrc" where
  "track s =
     (if bHzChanged s then s\<lparr>m_nChange := m_nChange s + 1\<rparr>
      else
        let s1 = s\<lparr>m_nChange := 0, m_summs := m_summs s + avems s, m_nms := m_nms s + 1\<rparr>
        in if m_ms s1 = 0 \<and> of_int (m_nms s1) > max 30 (grouping s * 60)
           then s1\<lparr>m_ms := m_summs s1 / of_int (m_nms s1)\<rparr>
           else s1)"

text \<open>The store: downsampling at capacity, the new sample, and the skip counter. The
  JavaScript writes both values at the index \<^verbatim>\<open>at = this._m_D.length\<close>. The two arrays
  are only ever changed together (both emptied by \<^verbatim>\<open>__reset\<close>, both halved by
  \<^verbatim>\<open>__cut\<close>, both written here), so they have the same length whenever this code runs
  and both writes append.\<close>

definition store :: "rrc \<Rightarrow> rrc" where
  "store s =
     (let s1 = (if length (m_D s) \<ge> MAXSTORE s
                then s\<lparr>m_D := cut (m_D s), m_S := cut (m_S s), nSkipBase := nSkipBase s * 2 + 1\<rparr>
                else s)
      in s1\<lparr>m_D := m_D s1 @ [L2 s1],
            m_S := m_S s1 @ [(L0 s1 + L1 s1 + L2 s1 + L3 s1 + L4 s1) / 5],
            nSkip := nSkipBase s1\<rparr>)"

text \<open>The periodic validation at the end of an admission.\<close>

definition validate_due :: "rrc \<Rightarrow> real \<Rightarrow> bool" where
  "validate_due s tFrame = (m_ms s \<noteq> 0 \<and> tFrame - tUpdate s > VALIDATEMS s)"

definition revalidate :: "rrc \<Rightarrow> real \<Rightarrow> rrc" where
  "revalidate s tFrame =
     (if validate_due s tFrame
      then (case validate (s\<lparr>tUpdate := tFrame\<rparr>) of (s', ret) \<Rightarrow> s'\<lparr>m_vi := ret\<rparr>)
      else s)"

text \<open>\<^verbatim>\<open>__add\<close>; its returned status string is a diagnostic and is not modelled.\<close>

definition add :: "rrc \<Rightarrow> real \<Rightarrow> rrc" where
  "add s tFrame =
     (let s0 = shift s tFrame in
      if grouping s0 < TIGHTGROUPMS s0 then
        (case gates s0 of (s1, pass) \<Rightarrow>
           if pass then
             (if avems s1 < 1000 / LOWESTVALIDHZ s1 then
                (let s2 = track s1 in
                 if m_nChange s2 > 20 then reset s2
                 else revalidate (store s2) tFrame)
              else s1)
           else s1)
      else s0)"

definition countCycle :: "real \<Rightarrow> rrc \<Rightarrow> rrc" where
  "countCycle currentTime s = add s currentTime"

subsection \<open>The accessors\<close>

definition calc :: "rrc \<Rightarrow> real" where
  "calc s = (if m_ms s \<noteq> 0 then 1000 / m_ms s else 0)"

definition getCurrentFrequency :: "rrc \<Rightarrow> real" where
  "getCurrentFrequency s = calc s"

text \<open>\<^verbatim>\<open>__snap\<close>: the object \<^verbatim>\<open>{tvsync, ms}\<close> as a pair, \<^verbatim>\<open>null\<close> as \<open>None\<close>.\<close>

definition snap :: "rrc \<Rightarrow> (real \<times> real) option" where
  "snap s = (if m_vi s \<noteq> None then Some (m_tvsync s, m_ms s) else None)"

definition getFilteredCycleTimestamp :: "rrc \<Rightarrow> (real \<times> real) option" where
  "getFilteredCycleTimestamp s = snap s"

definition getCount :: "rrc \<Rightarrow> int" where
  "getCount s = cycleCount s"

subsection \<open>Runs\<close>

text \<open>A run of \<^verbatim>\<open>countCycle\<close> calls, oldest timestamp first.\<close>

fun run :: "rrc \<Rightarrow> real list \<Rightarrow> rrc" where
  "run s [] = s"
| "run s (t # ts) = run (countCycle t s) ts"

subsection \<open>Observing one call\<close>

text \<open>Which branch of \<^verbatim>\<open>__add\<close> a call takes. \<open>admission\<close> is the object after
  the skip gates when the window is a tight group, both gates are passed and the
  low-rate floor is met; \<open>validator_input\<close> is the object on which \<^verbatim>\<open>__validate\<close>
  is called, when the call reaches it.\<close>

definition admission :: "rrc \<Rightarrow> real \<Rightarrow> rrc option" where
  "admission s tFrame =
     (let s0 = shift s tFrame in
      if grouping s0 < TIGHTGROUPMS s0
      then (case gates s0 of (s1, pass) \<Rightarrow>
              if pass \<and> avems s1 < 1000 / LOWESTVALIDHZ s1 then Some s1 else None)
      else None)"

definition validator_input :: "rrc \<Rightarrow> real \<Rightarrow> rrc option" where
  "validator_input s tFrame =
     (case admission s tFrame of
        None \<Rightarrow> None
      | Some s1 \<Rightarrow>
          let s2 = track s1 in
          if m_nChange s2 > 20 then None
          else let s3 = store s2 in
               if validate_due s3 tFrame then Some (s3\<lparr>tUpdate := tFrame\<rparr>) else None)"

subsection \<open>The public operations as calls\<close>

text \<open>The three mutating methods of the public interface; the accessors do not change
  the object.\<close>

datatype call = CountCycle real | IgnoreNextCycle int | RestartMeasuring

fun exec :: "rrc \<Rightarrow> call \<Rightarrow> rrc" where
  "exec s (CountCycle t) = countCycle t s"
| "exec s (IgnoreNextCycle n) = ignoreNextCycle n s"
| "exec s RestartMeasuring = restartMeasuring s"

fun execs :: "rrc \<Rightarrow> call list \<Rightarrow> rrc" where
  "execs s [] = s"
| "execs s (c # cs) = execs (exec s c) cs"

text \<open>A run in which every window that forms a tight group has an average inter-arrival
  time at or above the low-rate floor.\<close>

fun all_low :: "rrc \<Rightarrow> real list \<Rightarrow> bool" where
  "all_low s [] = True"
| "all_low s (t # ts) =
     ((grouping (shift s t) \<ge> TIGHTGROUPMS s \<or> avems (shift s t) \<ge> 1000 / LOWESTVALIDHZ s)
      \<and> all_low (countCycle t s) ts)"


text \<open>The invariant of the sample store.\<close>

definition store_inv :: "rrc \<Rightarrow> bool" where
  "store_inv s = (length (m_D s) = length (m_S s) \<and> length (m_D s) \<le> MAXSTORE s)"


text \<open>The number of calls of a run whose window is a tight group.\<close>

fun tight_calls :: "rrc \<Rightarrow> real list \<Rightarrow> nat" where
  "tight_calls s [] = 0"
| "tight_calls s (t # ts) =
     (if grouping (shift s t) < TIGHTGROUPMS s then 1 else 0) + tight_calls (countCycle t s) ts"

text \<open>A test configuration: a new object with a capacity of four samples.\<close>

definition small_store :: rrc where
  "small_store = constructor\<lparr>MAXSTORE := 4\<rparr>"


text \<open>The two internal resets of a call: the change counter exceeding 20, and a
  validation that ends in the reset branch.\<close>

definition hz_reset :: "rrc \<Rightarrow> real \<Rightarrow> bool" where
  "hz_reset s t = (case admission s t of None \<Rightarrow> False | Some s1 \<Rightarrow> 20 < m_nChange (track s1))"

definition drift_reset :: "rrc \<Rightarrow> real \<Rightarrow> bool" where
  "drift_reset s t = (case validator_input s t of None \<Rightarrow> False
                      | Some v \<Rightarrow> snd (validate v) = None)"

definition internal_reset :: "rrc \<Rightarrow> real \<Rightarrow> bool" where
  "internal_reset s t = (hz_reset s t \<or> drift_reset s t)"

text \<open>An input that changes its rate: 71 equal timestamps, then steps of 2 ms.\<close>

definition hz_change_input :: "real list" where
  "hz_change_input = replicate 71 0 @
     [2, 4, 6, 8, 10, 12, 14, 16, 18, 20, 22, 24, 26, 28, 30, 32, 34, 36, 38, 40, 42, 44, 46]"


text \<open>A run without internal reset.\<close>

fun reset_free :: "rrc \<Rightarrow> real list \<Rightarrow> bool" where
  "reset_free s [] = True"
| "reset_free s (t # ts) = (\<not> internal_reset s t \<and> reset_free (countCycle t s) ts)"
























section \<open>Properties\<close>

subsection \<open>Basic facts\<close>

lemma add_admission:
  "admission s t = Some s1 \<Longrightarrow>
   add s t = (if m_nChange (track s1) > 20 then reset (track s1)
              else revalidate (store (track s1)) t)"
  by (auto simp: admission_def add_def Let_def split: if_splits prod.splits)

lemma shift_fields:
  "VALIDATEMS (shift s t) = VALIDATEMS s" "TIGHTGROUPMS (shift s t) = TIGHTGROUPMS s"
  "MSCHANGE (shift s t) = MSCHANGE s" "MAXSTORE (shift s t) = MAXSTORE s"
  "LOWESTVALIDHZ (shift s t) = LOWESTVALIDHZ s"
  "nJavaScriptSkip (shift s t) = nJavaScriptSkip s"
  "cycleCount (shift s t) = cycleCount s + 1"
  "nSkipBase (shift s t) = nSkipBase s" "nSkip (shift s t) = nSkip s"
  "tUpdate (shift s t) = tUpdate s"
  "L0 (shift s t) = L1 s" "L1 (shift s t) = L2 s" "L2 (shift s t) = L3 s"
  "L3 (shift s t) = L4 s" "L4 (shift s t) = t"
  "m_D (shift s t) = m_D s" "m_S (shift s t) = m_S s" "m_ms (shift s t) = m_ms s"
  "m_vi (shift s t) = m_vi s" "m_tvsync (shift s t) = m_tvsync s"
  "m_summs (shift s t) = m_summs s" "m_nms (shift s t) = m_nms s"
  "m_nChange (shift s t) = m_nChange s"
  by (simp_all add: shift_def)

lemma gates_eq:
  "gates s = (if nJavaScriptSkip s \<le> 0
              then (s\<lparr>nJavaScriptSkip := nJavaScriptSkip s - 1, nSkip := nSkip s - 1\<rparr>,
                    nSkip s \<le> 0)
              else (s\<lparr>nJavaScriptSkip := nJavaScriptSkip s - 1\<rparr>, False))"
  by (auto simp: gates_def Let_def)

lemma gates_fields:
  "VALIDATEMS (fst (gates s)) = VALIDATEMS s" "TIGHTGROUPMS (fst (gates s)) = TIGHTGROUPMS s"
  "MSCHANGE (fst (gates s)) = MSCHANGE s" "MAXSTORE (fst (gates s)) = MAXSTORE s"
  "LOWESTVALIDHZ (fst (gates s)) = LOWESTVALIDHZ s"
  "nJavaScriptSkip (fst (gates s)) = nJavaScriptSkip s - 1"
  "cycleCount (fst (gates s)) = cycleCount s"
  "nSkipBase (fst (gates s)) = nSkipBase s"
  "nSkip (fst (gates s)) = (if nJavaScriptSkip s \<le> 0 then nSkip s - 1 else nSkip s)"
  "tUpdate (fst (gates s)) = tUpdate s"
  "L0 (fst (gates s)) = L0 s" "L1 (fst (gates s)) = L1 s" "L2 (fst (gates s)) = L2 s"
  "L3 (fst (gates s)) = L3 s" "L4 (fst (gates s)) = L4 s"
  "m_D (fst (gates s)) = m_D s" "m_S (fst (gates s)) = m_S s" "m_ms (fst (gates s)) = m_ms s"
  "m_vi (fst (gates s)) = m_vi s" "m_tvsync (fst (gates s)) = m_tvsync s"
  "m_summs (fst (gates s)) = m_summs s" "m_nms (fst (gates s)) = m_nms s"
  "m_nChange (fst (gates s)) = m_nChange s"
  "snd (gates s) = (nJavaScriptSkip s \<le> 0 \<and> nSkip s \<le> 0)"
  "avems (fst (gates s)) = avems s" "grouping (fst (gates s)) = grouping s"
  by (simp_all add: gates_eq avems_def grouping_def)

lemma admission_Some:
  "admission s t = Some s1 \<longleftrightarrow>
     grouping (shift s t) < TIGHTGROUPMS s \<and> nJavaScriptSkip s \<le> 0 \<and> nSkip s \<le> 0
     \<and> avems (shift s t) < 1000 / LOWESTVALIDHZ s \<and> s1 = fst (gates (shift s t))"
  by (cases "gates (shift s t)")
     (use gates_fields(24,25,5) [of "shift s t"] in
       \<open>auto simp: admission_def Let_def shift_fields\<close>)

lemma track_fields:
  "m_nChange (track s) = (if bHzChanged s then m_nChange s + 1 else 0)"
  "m_summs (track s) = (if bHzChanged s then m_summs s else m_summs s + avems s)"
  "m_nms (track s) = (if bHzChanged s then m_nms s else m_nms s + 1)"
  "m_D (track s) = m_D s" "m_S (track s) = m_S s"
  "cycleCount (track s) = cycleCount s" "nJavaScriptSkip (track s) = nJavaScriptSkip s"
  "nSkip (track s) = nSkip s" "nSkipBase (track s) = nSkipBase s"
  "MAXSTORE (track s) = MAXSTORE s" "VALIDATEMS (track s) = VALIDATEMS s"
  "TIGHTGROUPMS (track s) = TIGHTGROUPMS s" "LOWESTVALIDHZ (track s) = LOWESTVALIDHZ s"
  "MSCHANGE (track s) = MSCHANGE s"
  "L0 (track s) = L0 s" "L1 (track s) = L1 s" "L2 (track s) = L2 s"
  "L3 (track s) = L3 s" "L4 (track s) = L4 s"
  "tUpdate (track s) = tUpdate s" "m_vi (track s) = m_vi s" "m_tvsync (track s) = m_tvsync s"
  by (simp_all add: track_def Let_def)


lemma store_fields:
  "m_D (store s) = (if MAXSTORE s \<le> length (m_D s) then cut (m_D s) else m_D s) @ [L2 s]"
  "m_S (store s) = (if MAXSTORE s \<le> length (m_D s) then cut (m_S s) else m_S s)
                   @ [(L0 s + L1 s + L2 s + L3 s + L4 s) / 5]"
  "nSkipBase (store s) = (if MAXSTORE s \<le> length (m_D s) then nSkipBase s * 2 + 1
                          else nSkipBase s)"
  "nSkip (store s) = nSkipBase (store s)"
  "cycleCount (store s) = cycleCount s" "nJavaScriptSkip (store s) = nJavaScriptSkip s"
  "MAXSTORE (store s) = MAXSTORE s" "VALIDATEMS (store s) = VALIDATEMS s"
  "TIGHTGROUPMS (store s) = TIGHTGROUPMS s" "LOWESTVALIDHZ (store s) = LOWESTVALIDHZ s"
  "MSCHANGE (store s) = MSCHANGE s"
  "L0 (store s) = L0 s" "L1 (store s) = L1 s" "L2 (store s) = L2 s"
  "L3 (store s) = L3 s" "L4 (store s) = L4 s"
  "tUpdate (store s) = tUpdate s" "m_vi (store s) = m_vi s" "m_tvsync (store s) = m_tvsync s"
  "m_ms (store s) = m_ms s" "m_summs (store s) = m_summs s" "m_nms (store s) = m_nms s"
  "m_nChange (store s) = m_nChange s"
  by (simp_all add: store_def Let_def)

lemma reset_fields:
  "VALIDATEMS (reset s) = VALIDATEMS s" "TIGHTGROUPMS (reset s) = TIGHTGROUPMS s"
  "MSCHANGE (reset s) = MSCHANGE s" "MAXSTORE (reset s) = MAXSTORE s"
  "LOWESTVALIDHZ (reset s) = LOWESTVALIDHZ s"
  "nJavaScriptSkip (reset s) = nJavaScriptSkip s"
  "cycleCount (reset s) = 0" "nSkipBase (reset s) = 0" "nSkip (reset s) = 0"
  "tUpdate (reset s) = 0"
  "L0 (reset s) = 0" "L1 (reset s) = 0" "L2 (reset s) = 0" "L3 (reset s) = 0" "L4 (reset s) = 0"
  "m_D (reset s) = []" "m_S (reset s) = []" "m_ms (reset s) = 0"
  "m_vi (reset s) = None" "m_tvsync (reset s) = 0"
  "m_summs (reset s) = 0" "m_nms (reset s) = 0" "m_nChange (reset s) = 0"
  by (simp_all add: reset_def)

lemma validate_cases:
  "validate s = (reset s, None)
   \<or> (\<exists>mn mx. validate s = (s\<lparr>m_ms := ols_m s, m_tvsync := timebase s + mn\<rparr>, Some (mn, mx))
        \<and> m_ms s \<noteq> 0 \<and> ols_den s \<noteq> 0 \<and> drift (ols_m s) (timebase s) (m_D s) = Some (mn, mx)
        \<and> mx - mn < ols_m s / 2)"
  by (auto simp: validate_def Let_def split: option.splits)

lemma bHzChanged_gates_shift:
  "bHzChanged (fst (gates (shift s t))) \<longleftrightarrow>
     11 \<le> m_nms s \<and> MSCHANGE s < \<bar>avems (shift s t) - m_summs s / of_int (m_nms s)\<bar>"
  by (auto simp: bHzChanged_def gates_fields shift_fields)

lemma constructor_fields:
  "constructor = \<lparr>VALIDATEMS = 100, TIGHTGROUPMS = 1, MSCHANGE = 1,
     MAXSTORE = 5000000, LOWESTVALIDHZ = 35, nJavaScriptSkip = 60,
     cycleCount = 0, nSkipBase = 0, nSkip = 0, tUpdate = 0,
     L0 = 0, L1 = 0, L2 = 0, L3 = 0, L4 = 0,
     m_D = [], m_S = [], m_ms = 0, m_vi = None, m_tvsync = 0,
     m_summs = 0, m_nms = 0, m_nChange = 0\<rparr>"
  by (simp add: constructor_def reset_def)

lemma add_loose: "TIGHTGROUPMS s \<le> grouping (shift s t) \<Longrightarrow> add s t = shift s t"
  by (simp add: add_def Let_def shift_fields)

lemma grouping_shift:
  "grouping (shift s t) =
     Max {t - L4 s, L4 s - L3 s, L3 s - L2 s, L2 s - L1 s}
   - Min {t - L4 s, L4 s - L3 s, L3 s - L2 s, L2 s - L1 s}"
proof -
  have "grouping (shift s t) =
      max (max (max (t - L4 s) (L4 s - L3 s)) (L3 s - L2 s)) (L2 s - L1 s)
    - min (min (min (t - L4 s) (L4 s - L3 s)) (L3 s - L2 s)) (L2 s - L1 s)"
    by (simp add: grouping_def shift_def)
  also have "\<dots> = Max {t - L4 s, L4 s - L3 s, L3 s - L2 s, L2 s - L1 s}
   - Min {t - L4 s, L4 s - L3 s, L3 s - L2 s, L2 s - L1 s}"
    by (simp add: max.commute max.left_commute min.commute min.left_commute)
  finally show ?thesis .
qed

subsection \<open>The grouping filter\<close>

text \<open>
  Claim C2. Every \<^verbatim>\<open>countCycle\<close> call shifts the five-slot window (the oldest
  timestamp is dropped, the new one appended, and the cycle counter that goes with the
  shift is incremented); the grouping is the largest of the four consecutive window
  deltas minus the smallest. When the grouping is not below \<^verbatim>\<open>TIGHTGROUPMS\<close>, the
  call does nothing else: the object after the call is the object before it with only
  the shift applied, so no sample is stored, the running mean and the change counter
  are untouched and no skip counter moves.
\<close>

theorem C2_loose_group_only_shifts:
  assumes "TIGHTGROUPMS s \<le> grouping (shift s t)"
  shows "countCycle t s = s\<lparr>cycleCount := cycleCount s + 1,
           L0 := L1 s, L1 := L2 s, L2 := L3 s, L3 := L4 s, L4 := t\<rparr>
       \<and> grouping (shift s t) =
           Max {t - L4 s, L4 s - L3 s, L3 s - L2 s, L2 s - L1 s}
         - Min {t - L4 s, L4 s - L3 s, L3 s - L2 s, L2 s - L1 s}"
proof
  show "countCycle t s = s\<lparr>cycleCount := cycleCount s + 1,
           L0 := L1 s, L1 := L2 s, L2 := L3 s, L3 := L4 s, L4 := t\<rparr>"
    using add_loose [OF assms] by (simp add: countCycle_def shift_def)
  show "grouping (shift s t) =
           Max {t - L4 s, L4 s - L3 s, L3 s - L2 s, L2 s - L1 s}
         - Min {t - L4 s, L4 s - L3 s, L3 s - L2 s, L2 s - L1 s}"
    by (rule grouping_shift)
qed

theorem C2_loose_group_witness:
  "TIGHTGROUPMS constructor \<le> grouping (shift constructor 1000)
   \<and> m_D (countCycle 1000 constructor) = [] \<and> L4 (countCycle 1000 constructor) = 1000
   \<and> cycleCount (countCycle 1000 constructor) = 1
   \<and> nJavaScriptSkip (countCycle 1000 constructor) = 60"
proof -
  have h: "TIGHTGROUPMS constructor \<le> grouping (shift constructor 1000)"
    by (simp add: constructor_fields shift_def grouping_def)
  show ?thesis using h C2_loose_group_only_shifts [OF h]
    by (simp add: constructor_fields)
qed

subsection \<open>\<^verbatim>\<open>__cut\<close> keeps the even indices\<close>

declare cut_loop.simps [simp del]

lemma cut_loop_even:
  "loop = 2 * j \<Longrightarrow>
   cut_loop arr loop ret = ret @ map (\<lambda>i. arr ! (2 * i)) [j..<(length arr + 1) div 2]"
proof (induction arr loop ret arbitrary: j rule: cut_loop.induct)
  case (1 arr loop ret)
  show ?case
  proof (cases "loop < length arr")
    case True
    with 1 have j: "j < (length arr + 1) div 2" by simp
    have "cut_loop arr loop ret = cut_loop arr (loop + 2) (ret @ [arr ! loop])"
      using True by (subst cut_loop.simps) simp
    also have "\<dots> = (ret @ [arr ! loop]) @ map (\<lambda>i. arr ! (2 * i)) [Suc j..<(length arr + 1) div 2]"
      using True 1 by (intro "1.IH") simp_all
    also have "\<dots> = ret @ map (\<lambda>i. arr ! (2 * i)) [j..<(length arr + 1) div 2]"
      using j 1 by (simp add: upt_conv_Cons)
    finally show ?thesis .
  next
    case False
    with 1 have "(length arr + 1) div 2 \<le> j" by simp
    moreover have "cut_loop arr loop ret = ret"
      using False by (subst cut_loop.simps) simp
    ultimately show ?thesis by simp
  qed
qed

lemma cut_even_indices:
  "cut arr = map (\<lambda>i. arr ! (2 * i)) [0..<(length arr + 1) div 2]"
  by (simp add: cut_def cut_loop_even [of 0 0])

lemma length_cut: "length (cut arr) = (length arr + 1) div 2"
  by (simp add: cut_even_indices)

lemma run_append: "run s (xs @ ys) = run (run s xs) ys"
  by (induction xs arbitrary: s) simp_all

lemma add_flat_skip:
  assumes "L0 s = c" "L1 s = c" "L2 s = c" "L3 s = c" "L4 s = c"
    and "0 < TIGHTGROUPMS s" and "0 < nJavaScriptSkip s"
  shows "add s c = s\<lparr>cycleCount := cycleCount s + 1, nJavaScriptSkip := nJavaScriptSkip s - 1\<rparr>"
proof -
  have g: "grouping (shift s c) < TIGHTGROUPMS (shift s c)"
    using assms by (simp add: grouping_def shift_fields)
  have "add s c = fst (gates (shift s c))"
    using g assms(7) by (simp add: add_def Let_def gates_eq shift_fields)
  also have "\<dots> = s\<lparr>cycleCount := cycleCount s + 1, nJavaScriptSkip := nJavaScriptSkip s - 1\<rparr>"
    using assms by (intro rrc.equality) (simp_all add: gates_fields shift_fields)
  finally show ?thesis .
qed

lemma run_flat_skip:
  assumes "L0 s = c" "L1 s = c" "L2 s = c" "L3 s = c" "L4 s = c"
    and "0 < TIGHTGROUPMS s" and "int n \<le> nJavaScriptSkip s"
  shows "run s (replicate n c)
         = s\<lparr>cycleCount := cycleCount s + int n, nJavaScriptSkip := nJavaScriptSkip s - int n\<rparr>"
  using assms
proof (induction n arbitrary: s)
  case 0
  then show ?case by simp
next
  case (Suc n)
  have step: "add s c = s\<lparr>cycleCount := cycleCount s + 1, nJavaScriptSkip := nJavaScriptSkip s - 1\<rparr>"
    using Suc.prems by (intro add_flat_skip) simp_all
  show ?case
    using Suc.prems
    by (simp add: countCycle_def step Suc.IH add.assoc diff_diff_eq)
qed

lemma warm_state:
  "run constructor (replicate 60 0) = constructor\<lparr>cycleCount := 60, nJavaScriptSkip := 0\<rparr>"
  using run_flat_skip [of constructor 0 60] by (simp add: constructor_fields)

lemmas step_defs = countCycle_def add_def shift_def grouping_def gates_def avems_def track_def
  bHzChanged_def store_def revalidate_def validate_due_def reset_def Let_def

lemma add_no_admission:
  "admission s t = None \<Longrightarrow>
   add s t = (if grouping (shift s t) < TIGHTGROUPMS s then fst (gates (shift s t))
              else shift s t)"
  by (auto simp: admission_def add_def Let_def shift_def split: if_splits prod.splits)

lemma revalidate_cases:
  "revalidate s t = s
   \<or> revalidate s t = reset s
   \<or> (\<exists>m tv mn mx. revalidate s t = s\<lparr>tUpdate := t, m_ms := m, m_tvsync := tv, m_vi := Some (mn, mx)\<rparr>
        \<and> m \<noteq> 0)"
proof (cases "validate_due s t")
  case False
  then show ?thesis by (simp add: revalidate_def)
next
  case True
  have r: "(reset (s\<lparr>tUpdate := t\<rparr>))\<lparr>m_vi := None\<rparr> = reset s"
    by (simp add: reset_def)
  from validate_cases [of "s\<lparr>tUpdate := t\<rparr>"] show ?thesis
  proof
    assume "validate (s\<lparr>tUpdate := t\<rparr>) = (reset (s\<lparr>tUpdate := t\<rparr>), None)"
    then show ?thesis using True r by (simp add: revalidate_def)
  next
    assume "\<exists>mn mx. validate (s\<lparr>tUpdate := t\<rparr>)
        = (s\<lparr>tUpdate := t\<rparr>\<lparr>m_ms := ols_m (s\<lparr>tUpdate := t\<rparr>),
             m_tvsync := timebase (s\<lparr>tUpdate := t\<rparr>) + mn\<rparr>, Some (mn, mx))
        \<and> m_ms (s\<lparr>tUpdate := t\<rparr>) \<noteq> 0 \<and> ols_den (s\<lparr>tUpdate := t\<rparr>) \<noteq> 0
        \<and> drift (ols_m (s\<lparr>tUpdate := t\<rparr>)) (timebase (s\<lparr>tUpdate := t\<rparr>)) (m_D (s\<lparr>tUpdate := t\<rparr>)) = Some (mn, mx)
        \<and> mx - mn < ols_m (s\<lparr>tUpdate := t\<rparr>) / 2"
    then obtain mn mx where v: "validate (s\<lparr>tUpdate := t\<rparr>)
        = (s\<lparr>tUpdate := t\<rparr>\<lparr>m_ms := ols_m (s\<lparr>tUpdate := t\<rparr>),
             m_tvsync := timebase (s\<lparr>tUpdate := t\<rparr>) + mn\<rparr>, Some (mn, mx))"
      and d: "drift (ols_m (s\<lparr>tUpdate := t\<rparr>)) (timebase (s\<lparr>tUpdate := t\<rparr>)) (m_D (s\<lparr>tUpdate := t\<rparr>)) = Some (mn, mx)"
      and lt: "mx - mn < ols_m (s\<lparr>tUpdate := t\<rparr>) / 2"
      by blast
    have "ols_m (s\<lparr>tUpdate := t\<rparr>) \<noteq> 0"
    proof
      assume z: "ols_m (s\<lparr>tUpdate := t\<rparr>) = 0"
      show False
      proof (cases "tl (m_D (s\<lparr>tUpdate := t\<rparr>))")
        case Nil
        with d z lt show False by (simp add: drift_def)
      next
        case (Cons a as)
        have "drift_loop 0 tb None ds = None" for tb ds
          by (induction ds) simp_all
        with d z Cons show False
          by (simp add: drift_def offset_def js_rem_def)
      qed
    qed
    moreover from v True have "revalidate s t = s\<lparr>tUpdate := t, m_ms := ols_m (s\<lparr>tUpdate := t\<rparr>),
        m_tvsync := timebase (s\<lparr>tUpdate := t\<rparr>) + mn, m_vi := Some (mn, mx)\<rparr>"
      by (simp add: revalidate_def)
    ultimately show ?thesis by blast
  qed
qed

lemma revalidate_store:
  "m_D (revalidate s t) = m_D s \<and> m_S (revalidate s t) = m_S s
   \<or> m_D (revalidate s t) = [] \<and> m_S (revalidate s t) = []"
  using revalidate_cases [of s t] by (auto simp: reset_fields)

lemma revalidate_consts:
  "VALIDATEMS (revalidate s t) = VALIDATEMS s" "TIGHTGROUPMS (revalidate s t) = TIGHTGROUPMS s"
  "MSCHANGE (revalidate s t) = MSCHANGE s" "MAXSTORE (revalidate s t) = MAXSTORE s"
  "LOWESTVALIDHZ (revalidate s t) = LOWESTVALIDHZ s"
  "nJavaScriptSkip (revalidate s t) = nJavaScriptSkip s"
  using revalidate_cases [of s t] by (auto simp: reset_fields)

lemma add_consts:
  "VALIDATEMS (add s t) = VALIDATEMS s" "TIGHTGROUPMS (add s t) = TIGHTGROUPMS s"
  "MSCHANGE (add s t) = MSCHANGE s" "MAXSTORE (add s t) = MAXSTORE s"
  "LOWESTVALIDHZ (add s t) = LOWESTVALIDHZ s"
proof (atomize (full), cases "admission s t")
  case None
  then show "(VALIDATEMS (add s t) = VALIDATEMS s \<and> TIGHTGROUPMS (add s t) = TIGHTGROUPMS s)
     \<and> MSCHANGE (add s t) = MSCHANGE s \<and> MAXSTORE (add s t) = MAXSTORE s
     \<and> LOWESTVALIDHZ (add s t) = LOWESTVALIDHZ s"
    by (simp add: add_no_admission gates_fields shift_fields)
next
  case (Some s1)
  then have s1: "s1 = fst (gates (shift s t))" by (simp add: admission_Some)
  show "(VALIDATEMS (add s t) = VALIDATEMS s \<and> TIGHTGROUPMS (add s t) = TIGHTGROUPMS s)
     \<and> MSCHANGE (add s t) = MSCHANGE s \<and> MAXSTORE (add s t) = MAXSTORE s
     \<and> LOWESTVALIDHZ (add s t) = LOWESTVALIDHZ s"
    by (simp add: add_admission [OF Some] reset_fields revalidate_consts store_fields
          track_fields s1 gates_fields shift_fields)
qed

lemma exec_consts:
  "VALIDATEMS (exec s c) = VALIDATEMS s" "TIGHTGROUPMS (exec s c) = TIGHTGROUPMS s"
  "MSCHANGE (exec s c) = MSCHANGE s" "MAXSTORE (exec s c) = MAXSTORE s"
  "LOWESTVALIDHZ (exec s c) = LOWESTVALIDHZ s"
  by (cases c; simp add: countCycle_def add_consts ignoreNextCycle_def restartMeasuring_def
        reset_fields)+

lemma execs_consts:
  "VALIDATEMS (execs s cs) = VALIDATEMS s \<and> TIGHTGROUPMS (execs s cs) = TIGHTGROUPMS s
   \<and> MSCHANGE (execs s cs) = MSCHANGE s \<and> MAXSTORE (execs s cs) = MAXSTORE s
   \<and> LOWESTVALIDHZ (execs s cs) = LOWESTVALIDHZ s"
  by (induction cs arbitrary: s) (simp_all add: exec_consts)

lemma store_inv_store:
  assumes "store_inv s" "2 \<le> MAXSTORE s"
  shows "store_inv (store s)"
  using assms by (auto simp: store_inv_def store_fields length_cut)

lemma store_inv_add:
  assumes "store_inv s" "2 \<le> MAXSTORE s"
  shows "store_inv (add s t)"
proof (cases "admission s t")
  case None
  then show ?thesis using assms
    by (simp add: add_no_admission store_inv_def gates_fields shift_fields)
next
  case (Some s1)
  then have s1: "s1 = fst (gates (shift s t))" by (simp add: admission_Some)
  have "store_inv (track s1)" "2 \<le> MAXSTORE (track s1)"
    using assms by (simp_all add: store_inv_def track_fields s1 gates_fields shift_fields)
  then have st: "store_inv (store (track s1))" by (rule store_inv_store)
  have "store_inv (revalidate (store (track s1)) t)"
    using st revalidate_store [of "store (track s1)" t]
    by (auto simp: store_inv_def revalidate_consts)
  then show ?thesis
    by (simp add: add_admission [OF Some] store_inv_def reset_fields)
qed

lemma store_inv_exec:
  assumes "store_inv s" "2 \<le> MAXSTORE s"
  shows "store_inv (exec s c)"
proof (cases c)
  case (CountCycle t)
  then show ?thesis using store_inv_add [OF assms] by (simp add: countCycle_def)
next
  case (IgnoreNextCycle n)
  then show ?thesis using assms by (simp add: ignoreNextCycle_def store_inv_def)
next
  case RestartMeasuring
  then show ?thesis by (simp add: restartMeasuring_def store_inv_def reset_fields)
qed

lemma store_inv_execs:
  assumes "store_inv s" "2 \<le> MAXSTORE s"
  shows "store_inv (execs s cs)"
  using assms
  by (induction cs arbitrary: s) (simp_all add: store_inv_exec exec_consts)

subsection \<open>The store invariant\<close>

text \<open>
  Claim C9. The two sample sequences have the same length, and that length never exceeds
  \<^verbatim>\<open>MAXSTORE\<close>: each public operation preserves this (for a capacity of at least
  two), and it holds with the bound 5000000 after every sequence of \<^verbatim>\<open>countCycle\<close>,
  \<^verbatim>\<open>ignoreNextCycle\<close> and \<^verbatim>\<open>restartMeasuring\<close> calls on a new object. The
  accessors do not modify the object.
\<close>

theorem C9_store_invariant:
  "(store_inv s \<and> 2 \<le> MAXSTORE s \<longrightarrow> store_inv (exec s c))
   \<and> length (m_D (execs constructor cs)) = length (m_S (execs constructor cs))
   \<and> length (m_D (execs constructor cs)) \<le> 5000000"
proof -
  have c: "store_inv constructor" "2 \<le> MAXSTORE constructor" "MAXSTORE constructor = 5000000"
    by (simp_all add: store_inv_def constructor_fields)
  have "store_inv (execs constructor cs)"
    using c(1,2) by (rule store_inv_execs)
  moreover have "MAXSTORE (execs constructor cs) = 5000000"
    using execs_consts [of constructor cs] c(3) by simp
  ultimately have "length (m_D (execs constructor cs)) = length (m_S (execs constructor cs))
      \<and> length (m_D (execs constructor cs)) \<le> 5000000"
    by (simp add: store_inv_def)
  then show ?thesis
    using store_inv_exec [of s c] by blast
qed

theorem C9_store_invariant_witness:
  "store_inv constructor \<and> 2 \<le> MAXSTORE constructor
   \<and> store_inv (exec constructor (CountCycle 0))"
proof -
  have c: "store_inv constructor \<and> 2 \<le> MAXSTORE constructor"
    by (simp add: store_inv_def constructor_fields)
  with C9_store_invariant [of constructor "CountCycle 0" "[]"] show ?thesis by blast
qed

subsection \<open>The low-rate floor\<close>

lemma low_no_admission:
  "TIGHTGROUPMS s \<le> grouping (shift s t) \<or> 1000 / LOWESTVALIDHZ s \<le> avems (shift s t)
   \<Longrightarrow> admission s t = None"
  by (cases "admission s t") (auto simp: admission_Some)

lemma no_admission_fields:
  assumes "admission s t = None"
  shows "m_D (add s t) = m_D s" "m_S (add s t) = m_S s" "m_ms (add s t) = m_ms s"
    "m_vi (add s t) = m_vi s" "m_summs (add s t) = m_summs s" "m_nms (add s t) = m_nms s"
    "m_nChange (add s t) = m_nChange s" "m_tvsync (add s t) = m_tvsync s"
    "cycleCount (add s t) = cycleCount s + 1"
  by (simp_all add: add_no_admission [OF assms] gates_fields shift_fields)

lemma all_low_run:
  "all_low s ts \<Longrightarrow>
   m_D (run s ts) = m_D s \<and> m_S (run s ts) = m_S s \<and> m_ms (run s ts) = m_ms s"
proof (induction ts arbitrary: s)
  case Nil
  then show ?case by simp
next
  case (Cons t ts)
  then have "admission s t = None" by (intro low_no_admission) simp
  then have "m_D (add s t) = m_D s" "m_S (add s t) = m_S s" "m_ms (add s t) = m_ms s"
    by (rule no_admission_fields)+
  moreover from Cons.prems have "all_low (add s t) ts" by (simp add: countCycle_def)
  ultimately show ?case using Cons.IH [of "add s t"] by (simp add: countCycle_def)
qed

text \<open>
  Claim C5. A tight group that passes both skip gates and whose average inter-arrival time
  \<open>avems = (L4 - L0) / 4\<close> is at least \<open>1000 / LOWESTVALIDHZ\<close> is dropped: the call
  only shifts the window and decrements the two skip counters. Hence, from an object with
  an empty store and an unprimed interval, a run in which every tight group is that slow
  stores nothing and \<^verbatim>\<open>getCurrentFrequency\<close> stays 0.
\<close>

theorem C5_low_rate_floor:
  "(grouping (shift s t) < TIGHTGROUPMS s \<and> nJavaScriptSkip s \<le> 0 \<and> nSkip s \<le> 0
      \<and> 1000 / LOWESTVALIDHZ s \<le> avems (shift s t)
    \<longrightarrow> avems (shift s t) = (t - L1 s) / 4
      \<and> countCycle t s = (shift s t)\<lparr>nJavaScriptSkip := nJavaScriptSkip s - 1,
                                       nSkip := nSkip s - 1\<rparr>)
   \<and> (all_low s ts \<and> m_D s = [] \<and> m_S s = [] \<and> m_ms s = 0
    \<longrightarrow> m_D (run s ts) = [] \<and> m_S (run s ts) = [] \<and> getCurrentFrequency (run s ts) = 0)"
proof (intro conjI impI)
  assume a: "grouping (shift s t) < TIGHTGROUPMS s \<and> nJavaScriptSkip s \<le> 0 \<and> nSkip s \<le> 0
      \<and> 1000 / LOWESTVALIDHZ s \<le> avems (shift s t)"
  show "avems (shift s t) = (t - L1 s) / 4"
    by (simp add: avems_def shift_fields)
  from a have "admission s t = None" by (intro low_no_admission) simp
  then have "add s t = fst (gates (shift s t))"
    using a by (simp add: add_no_admission)
  also have "\<dots> = (shift s t)\<lparr>nJavaScriptSkip := nJavaScriptSkip s - 1, nSkip := nSkip s - 1\<rparr>"
    using a by (simp add: gates_eq shift_fields)
  finally show "countCycle t s = (shift s t)\<lparr>nJavaScriptSkip := nJavaScriptSkip s - 1,
                                       nSkip := nSkip s - 1\<rparr>"
    by (simp add: countCycle_def)
next
  assume "all_low s ts \<and> m_D s = [] \<and> m_S s = [] \<and> m_ms s = 0"
  then have r: "m_D (run s ts) = [] \<and> m_S (run s ts) = [] \<and> m_ms (run s ts) = 0"
    using all_low_run [of s ts] by simp
  from r show "m_D (run s ts) = []" by simp
  from r show "m_S (run s ts) = []" by simp
  from r show "getCurrentFrequency (run s ts) = 0"
    by (simp add: getCurrentFrequency_def calc_def)
qed

lemma warm30_state:
  "run constructor (replicate 60 0 @ [30, 60, 90])
   = constructor\<lparr>cycleCount := 63, nJavaScriptSkip := 0, L2 := 30, L3 := 60, L4 := 90\<rparr>"
  unfolding run_append warm_state
  by (simp add: constructor_fields step_defs)

theorem C5_low_rate_floor_witness:
  "(grouping (shift (run constructor (replicate 60 0 @ [30, 60, 90])) 120)
      < TIGHTGROUPMS (run constructor (replicate 60 0 @ [30, 60, 90]))
    \<and> nJavaScriptSkip (run constructor (replicate 60 0 @ [30, 60, 90])) \<le> 0
    \<and> nSkip (run constructor (replicate 60 0 @ [30, 60, 90])) \<le> 0
    \<and> 1000 / LOWESTVALIDHZ (run constructor (replicate 60 0 @ [30, 60, 90]))
        \<le> avems (shift (run constructor (replicate 60 0 @ [30, 60, 90])) 120))
   \<and> nJavaScriptSkip (countCycle 120 (run constructor (replicate 60 0 @ [30, 60, 90]))) = - 1
   \<and> nSkip (countCycle 120 (run constructor (replicate 60 0 @ [30, 60, 90]))) = - 1
   \<and> m_nms (countCycle 120 (run constructor (replicate 60 0 @ [30, 60, 90]))) = 0
   \<and> (all_low (run constructor (replicate 60 0 @ [30, 60, 90])) [120, 150, 180]
      \<and> m_D (run constructor (replicate 60 0 @ [30, 60, 90])) = []
      \<and> m_S (run constructor (replicate 60 0 @ [30, 60, 90])) = []
      \<and> m_ms (run constructor (replicate 60 0 @ [30, 60, 90])) = 0)
   \<and> m_D (run (run constructor (replicate 60 0 @ [30, 60, 90])) [120, 150, 180]) = []
   \<and> getCurrentFrequency (run (run constructor (replicate 60 0 @ [30, 60, 90])) [120, 150, 180]) = 0"
proof -
  have h1: "grouping (shift (run constructor (replicate 60 0 @ [30, 60, 90])) 120)
      < TIGHTGROUPMS (run constructor (replicate 60 0 @ [30, 60, 90]))
    \<and> nJavaScriptSkip (run constructor (replicate 60 0 @ [30, 60, 90])) \<le> 0
    \<and> nSkip (run constructor (replicate 60 0 @ [30, 60, 90])) \<le> 0
    \<and> 1000 / LOWESTVALIDHZ (run constructor (replicate 60 0 @ [30, 60, 90]))
        \<le> avems (shift (run constructor (replicate 60 0 @ [30, 60, 90])) 120)"
    unfolding warm30_state
    by (simp add: constructor_fields grouping_def shift_def avems_def)
  have h2: "all_low (run constructor (replicate 60 0 @ [30, 60, 90])) [120, 150, 180]
      \<and> m_D (run constructor (replicate 60 0 @ [30, 60, 90])) = []
      \<and> m_S (run constructor (replicate 60 0 @ [30, 60, 90])) = []
      \<and> m_ms (run constructor (replicate 60 0 @ [30, 60, 90])) = 0"
    unfolding warm30_state
    by (simp add: constructor_fields step_defs)
  have f: "m_nms (shift (run constructor (replicate 60 0 @ [30, 60, 90])) 120) = 0"
    "nJavaScriptSkip (run constructor (replicate 60 0 @ [30, 60, 90])) = 0"
    "nSkip (run constructor (replicate 60 0 @ [30, 60, 90])) = 0"
    unfolding warm30_state by (simp_all add: constructor_fields shift_def)
  note c = C5_low_rate_floor [of "run constructor (replicate 60 0 @ [30, 60, 90])" 120
        "[120, 150, 180]"]
  from c h1 have c1: "countCycle 120 (run constructor (replicate 60 0 @ [30, 60, 90]))
      = (shift (run constructor (replicate 60 0 @ [30, 60, 90])) 120)\<lparr>nJavaScriptSkip :=
           nJavaScriptSkip (run constructor (replicate 60 0 @ [30, 60, 90])) - 1,
         nSkip := nSkip (run constructor (replicate 60 0 @ [30, 60, 90])) - 1\<rparr>"
    by blast
  from c h2 have c2:
    "m_D (run (run constructor (replicate 60 0 @ [30, 60, 90])) [120, 150, 180]) = []
     \<and> getCurrentFrequency (run (run constructor (replicate 60 0 @ [30, 60, 90])) [120, 150, 180]) = 0"
    by blast
  have c3: "nJavaScriptSkip (countCycle 120 (run constructor (replicate 60 0 @ [30, 60, 90]))) = - 1
   \<and> nSkip (countCycle 120 (run constructor (replicate 60 0 @ [30, 60, 90]))) = - 1
   \<and> m_nms (countCycle 120 (run constructor (replicate 60 0 @ [30, 60, 90]))) = 0"
    unfolding c1 using f by simp
  from h1 h2 c2 c3 show ?thesis by blast
qed

subsection \<open>The change tracker\<close>

text \<open>
  Claim C3. On a call whose window is a tight group, passes both skip gates and meets the
  low-rate floor (\<open>admission s t = Some s1\<close>): the admission deviates exactly when
  the running mean has at least 11 samples and \<open>avems\<close> differs from it by more than
  \<^verbatim>\<open>MSCHANGE\<close>; a deviating admission increments the change counter and leaves the
  running sum and count alone; any other admission sets the counter to 0 and folds
  \<open>avems\<close> into the running sum and count. When the counter then exceeds 20 the call
  ends in a full reset (count, store, running mean, interval and timebase all zero);
  otherwise the sample goes on to the store.
\<close>

theorem C3_change_tracker:
  assumes "admission s t = Some s1"
  shows "(bHzChanged s1 \<longleftrightarrow>
            11 \<le> m_nms s \<and> MSCHANGE s < \<bar>avems (shift s t) - m_summs s / of_int (m_nms s)\<bar>)
       \<and> (bHzChanged s1 \<longrightarrow>
            m_nChange (track s1) = m_nChange s + 1 \<and> m_summs (track s1) = m_summs s
            \<and> m_nms (track s1) = m_nms s)
       \<and> (\<not> bHzChanged s1 \<longrightarrow>
            m_nChange (track s1) = 0 \<and> m_summs (track s1) = m_summs s + avems (shift s t)
            \<and> m_nms (track s1) = m_nms s + 1)
       \<and> (20 < m_nChange (track s1) \<longrightarrow> countCycle t s = reset (track s1)
            \<and> getCount (countCycle t s) = 0 \<and> m_D (countCycle t s) = []
            \<and> m_S (countCycle t s) = [] \<and> m_summs (countCycle t s) = 0
            \<and> m_nms (countCycle t s) = 0 \<and> m_nChange (countCycle t s) = 0
            \<and> m_ms (countCycle t s) = 0 \<and> m_tvsync (countCycle t s) = 0)
       \<and> (m_nChange (track s1) \<le> 20 \<longrightarrow> countCycle t s = revalidate (store (track s1)) t)"
proof -
  from assms have s1: "s1 = fst (gates (shift s t))"
    by (simp add: admission_Some)
  have a: "bHzChanged s1 \<longleftrightarrow>
            11 \<le> m_nms s \<and> MSCHANGE s < \<bar>avems (shift s t) - m_summs s / of_int (m_nms s)\<bar>"
    unfolding s1 by (rule bHzChanged_gates_shift)
  have b: "m_nChange s1 = m_nChange s" "m_summs s1 = m_summs s" "m_nms s1 = m_nms s"
    "avems s1 = avems (shift s t)"
    unfolding s1 by (simp_all add: gates_fields shift_fields)
  have c: "countCycle t s = (if m_nChange (track s1) > 20 then reset (track s1)
              else revalidate (store (track s1)) t)"
    unfolding countCycle_def by (rule add_admission [OF assms])
  show ?thesis
    using a c by (simp add: track_fields b reset_fields getCount_def)
qed

theorem C3_change_tracker_witness:
  "admission (run constructor (replicate 60 0)) 0
     = Some (fst (gates (shift (run constructor (replicate 60 0)) 0)))
   \<and> \<not> bHzChanged (fst (gates (shift (run constructor (replicate 60 0)) 0)))
   \<and> m_nms (track (fst (gates (shift (run constructor (replicate 60 0)) 0)))) = 1
   \<and> m_nChange (track (fst (gates (shift (run constructor (replicate 60 0)) 0)))) = 0
   \<and> countCycle 0 (run constructor (replicate 60 0))
     = revalidate (store (track (fst (gates (shift (run constructor (replicate 60 0)) 0))))) 0"
proof -
  have h: "admission (run constructor (replicate 60 0)) 0
     = Some (fst (gates (shift (run constructor (replicate 60 0)) 0)))"
    unfolding warm_state admission_Some
    by (simp add: constructor_fields grouping_def shift_def avems_def)
  have n: "m_nms (run constructor (replicate 60 0)) = 0"
    unfolding warm_state by (simp add: constructor_fields)
  show ?thesis
    using h n C3_change_tracker [OF h] by simp
qed

subsection \<open>Restart\<close>

text \<open>
  Claim C7, amended. \<^verbatim>\<open>restartMeasuring\<close> is \<^verbatim>\<open>__reset\<close>: whatever the prior
  state, afterwards \<^verbatim>\<open>getCount\<close> and \<^verbatim>\<open>getCurrentFrequency\<close> return 0, the store
  is empty and the running mean, interval and timebase are zero. The startup skip counter
  is the one piece of state it keeps: the object after a restart is a new object except
  that \<^verbatim>\<open>_nJavaScriptSkip\<close> has the value it had before, so the startup skip applies
  once per object and not once per restart.
\<close>

theorem C7_restart_keeps_startup_skip:
  "restartMeasuring (execs constructor cs)
     = constructor\<lparr>nJavaScriptSkip := nJavaScriptSkip (execs constructor cs)\<rparr>
   \<and> restartMeasuring s = reset s
   \<and> getCount (restartMeasuring s) = 0 \<and> getCurrentFrequency (restartMeasuring s) = 0
   \<and> getFilteredCycleTimestamp (restartMeasuring s) = None
   \<and> m_D (restartMeasuring s) = [] \<and> m_S (restartMeasuring s) = []
   \<and> m_summs (restartMeasuring s) = 0 \<and> m_nms (restartMeasuring s) = 0
   \<and> m_nChange (restartMeasuring s) = 0 \<and> nSkip (restartMeasuring s) = 0
   \<and> nSkipBase (restartMeasuring s) = 0
   \<and> m_ms (restartMeasuring s) = 0 \<and> m_tvsync (restartMeasuring s) = 0
   \<and> nJavaScriptSkip (restartMeasuring s) = nJavaScriptSkip s"
proof -
  have "restartMeasuring (execs constructor cs)
     = constructor\<lparr>nJavaScriptSkip := nJavaScriptSkip (execs constructor cs)\<rparr>"
    using execs_consts [of constructor cs]
    by (intro rrc.equality) (simp_all add: restartMeasuring_def reset_fields constructor_fields)
  then show ?thesis
    by (simp add: restartMeasuring_def reset_fields getCount_def getCurrentFrequency_def
          calc_def getFilteredCycleTimestamp_def snap_def)
qed

text \<open>After sixty skipped calls the startup counter has run down; a restart does not
  re-arm it, and the first tight group after the restart is stored at once (on a fresh
  object the same call is skipped).\<close>

theorem C7_counterexample:
  "nJavaScriptSkip (restartMeasuring (run constructor (replicate 60 0))) \<noteq> nJavaScriptSkip constructor
   \<and> m_D (countCycle 0 (restartMeasuring (run constructor (replicate 60 0)))) = [0]
   \<and> m_D (countCycle 0 constructor) = []"
  unfolding warm_state
  by (simp add: restartMeasuring_def constructor_fields step_defs cut_def cut_loop.simps)

subsection \<open>The bounded store\<close>

lemma add_absorbed:
  assumes "nJavaScriptSkip s \<le> 0" "0 < nSkip s" "grouping (shift s t) < TIGHTGROUPMS s"
  shows "add s t = (shift s t)\<lparr>nJavaScriptSkip := nJavaScriptSkip s - 1, nSkip := nSkip s - 1\<rparr>"
proof -
  have "admission s t = None"
    using assms by (cases "admission s t") (auto simp: admission_Some)
  then show ?thesis
    using assms by (simp add: add_no_admission gates_eq shift_fields)
qed

lemma run_absorbed:
  "nJavaScriptSkip s \<le> 0 \<Longrightarrow> int (tight_calls s ts) \<le> nSkip s \<Longrightarrow>
   m_D (run s ts) = m_D s \<and> m_S (run s ts) = m_S s
   \<and> nSkip (run s ts) = nSkip s - int (tight_calls s ts)
   \<and> nJavaScriptSkip (run s ts) \<le> 0"
proof (induction ts arbitrary: s)
  case Nil
  then show ?case by simp
next
  case (Cons t ts)
  show ?case
  proof (cases "grouping (shift s t) < TIGHTGROUPMS s")
    case True
    with Cons.prems have pos: "0 < nSkip s" by simp
    have a: "add s t = (shift s t)\<lparr>nJavaScriptSkip := nJavaScriptSkip s - 1, nSkip := nSkip s - 1\<rparr>"
      using Cons.prems(1) pos True by (rule add_absorbed)
    have "nJavaScriptSkip (add s t) \<le> 0" "int (tight_calls (add s t) ts) \<le> nSkip (add s t)"
      using Cons.prems True by (simp_all add: a countCycle_def shift_fields)
    from Cons.IH [OF this] show ?thesis
      using True by (simp add: countCycle_def) (simp add: a shift_fields)
  next
    case False
    then have a: "add s t = shift s t" by (simp add: add_loose)
    have "nJavaScriptSkip (add s t) \<le> 0" "int (tight_calls (add s t) ts) \<le> nSkip (add s t)"
      using Cons.prems False by (simp_all add: a countCycle_def shift_fields)
    from Cons.IH [OF this] show ?thesis
      using False by (simp add: countCycle_def) (simp add: a shift_fields)
  qed
qed

text \<open>
  Claim C4. \<^verbatim>\<open>__cut\<close> keeps exactly the elements at the even indices 0, 2, 4, ...
  An admission that finds the store at capacity downsamples both sequences with it
  before appending the new sample (the window's middle timestamp and the window's mean)
  and replaces the stride \<^verbatim>\<open>_nSkipBase\<close> by twice itself plus one; every stored sample
  sets the skip counter to the stride. While no more tight groups have arrived than the
  skip counter holds, a run leaves the store untouched and only counts the skip counter
  down; after exactly that many, the next tight group passes the gates.
\<close>

theorem C4_downsample_and_stride:
  "cut arr = map (\<lambda>i. arr ! (2 * i)) [0..<(length arr + 1) div 2]
   \<and> (admission s t = Some s1 \<and> m_nChange (track s1) \<le> 20 \<and> MAXSTORE s \<le> length (m_D s)
      \<longrightarrow> countCycle t s = revalidate (store (track s1)) t
        \<and> m_D (store (track s1)) = cut (m_D s) @ [L3 s]
        \<and> m_S (store (track s1)) = cut (m_S s) @ [(L1 s + L2 s + L3 s + L4 s + t) / 5]
        \<and> nSkipBase (store (track s1)) = nSkipBase s * 2 + 1
        \<and> nSkip (store (track s1)) = nSkipBase s * 2 + 1)
   \<and> (admission s t = Some s1 \<and> m_nChange (track s1) \<le> 20
      \<longrightarrow> nSkip (store (track s1)) = nSkipBase (store (track s1)))
   \<and> (nJavaScriptSkip u \<le> 0 \<and> int (tight_calls u ts) \<le> nSkip u
      \<longrightarrow> m_D (run u ts) = m_D u \<and> m_S (run u ts) = m_S u
        \<and> nSkip (run u ts) = nSkip u - int (tight_calls u ts))
   \<and> (nJavaScriptSkip u \<le> 0 \<and> int (tight_calls u ts) = nSkip u
      \<longrightarrow> snd (gates (shift (run u ts) t')))"
proof (intro conjI impI)
  show "cut arr = map (\<lambda>i. arr ! (2 * i)) [0..<(length arr + 1) div 2]"
    by (rule cut_even_indices)
next
  assume a: "admission s t = Some s1 \<and> m_nChange (track s1) \<le> 20 \<and> MAXSTORE s \<le> length (m_D s)"
  then have s1: "s1 = fst (gates (shift s t))" by (simp add: admission_Some)
  from a show "countCycle t s = revalidate (store (track s1)) t"
    by (simp add: countCycle_def add_admission)
  have f: "MAXSTORE (track s1) \<le> length (m_D (track s1))"
    using a by (simp add: s1 track_fields gates_fields shift_fields)
  show "m_D (store (track s1)) = cut (m_D s) @ [L3 s]"
    using f by (simp add: store_fields) (simp add: s1 track_fields gates_fields shift_fields)
  show "m_S (store (track s1)) = cut (m_S s) @ [(L1 s + L2 s + L3 s + L4 s + t) / 5]"
    using f by (simp add: store_fields) (simp add: s1 track_fields gates_fields shift_fields)
  show "nSkipBase (store (track s1)) = nSkipBase s * 2 + 1"
    using f by (simp add: store_fields) (simp add: s1 track_fields gates_fields shift_fields)
  then show "nSkip (store (track s1)) = nSkipBase s * 2 + 1"
    by (simp add: store_fields(4))
next
  show "nSkip (store (track s1)) = nSkipBase (store (track s1))"
    by (rule store_fields(4))
next
  assume "nJavaScriptSkip u \<le> 0 \<and> int (tight_calls u ts) \<le> nSkip u"
  then have r: "m_D (run u ts) = m_D u \<and> m_S (run u ts) = m_S u
     \<and> nSkip (run u ts) = nSkip u - int (tight_calls u ts)
     \<and> nJavaScriptSkip (run u ts) \<le> 0"
    using run_absorbed [of u ts] by blast
  from r show "m_D (run u ts) = m_D u" by blast
  from r show "m_S (run u ts) = m_S u" by blast
  from r show "nSkip (run u ts) = nSkip u - int (tight_calls u ts)" by blast
next
  assume "nJavaScriptSkip u \<le> 0 \<and> int (tight_calls u ts) = nSkip u"
  then have "nSkip (run u ts) = 0 \<and> nJavaScriptSkip (run u ts) \<le> 0"
    using run_absorbed [of u ts] by simp
  then show "snd (gates (shift (run u ts) t'))"
    by (simp add: gates_fields shift_fields)
qed

lemma small_store_fields:
  "small_store = \<lparr>VALIDATEMS = 100, TIGHTGROUPMS = 1, MSCHANGE = 1,
     MAXSTORE = 4, LOWESTVALIDHZ = 35, nJavaScriptSkip = 60,
     cycleCount = 0, nSkipBase = 0, nSkip = 0, tUpdate = 0,
     L0 = 0, L1 = 0, L2 = 0, L3 = 0, L4 = 0,
     m_D = [], m_S = [], m_ms = 0, m_vi = None, m_tvsync = 0,
     m_summs = 0, m_nms = 0, m_nChange = 0\<rparr>"
  by (simp add: small_store_def constructor_fields)

lemma small_store_warm:
  "run small_store (replicate 60 0) = small_store\<lparr>cycleCount := 60, nJavaScriptSkip := 0\<rparr>"
  using run_flat_skip [of small_store 0 60] by (simp add: small_store_fields)

lemma small_store_full:
  "run small_store (replicate 60 0 @ [1/10, 2/10, 3/10, 4/10])
   = small_store\<lparr>nJavaScriptSkip := - 4, cycleCount := 64,
       L0 := 0, L1 := 1 / 10, L2 := 1 / 5, L3 := 3 / 10, L4 := 2 / 5,
       m_D := [0, 0, 1 / 10, 1 / 5], m_S := [1 / 50, 3 / 50, 3 / 25, 1 / 5],
       m_summs := 1 / 4, m_nms := 4\<rparr>"
  unfolding run_append small_store_warm
  by (simp add: small_store_fields step_defs)

lemma small_store_cut:
  "run small_store (replicate 60 0 @ [1/10, 2/10, 3/10, 4/10, 5/10])
   = small_store\<lparr>nJavaScriptSkip := - 5, cycleCount := 65, nSkipBase := 1, nSkip := 1,
       L0 := 1 / 10, L1 := 1 / 5, L2 := 3 / 10, L3 := 2 / 5, L4 := 1 / 2,
       m_D := [0, 1 / 10, 3 / 10], m_S := [1 / 50, 3 / 25, 3 / 10],
       m_summs := 7 / 20, m_nms := 5\<rparr>"
proof -
  have "run small_store (replicate 60 0 @ [1/10, 2/10, 3/10, 4/10, 5/10])
      = run (run small_store (replicate 60 0 @ [1/10, 2/10, 3/10, 4/10])) [5/10]"
    using run_append [of small_store "replicate 60 0 @ [1/10, 2/10, 3/10, 4/10]" "[5/10]"]
    by simp
  also have "\<dots> = small_store\<lparr>nJavaScriptSkip := - 5, cycleCount := 65, nSkipBase := 1, nSkip := 1,
       L0 := 1 / 10, L1 := 1 / 5, L2 := 3 / 10, L3 := 2 / 5, L4 := 1 / 2,
       m_D := [0, 1 / 10, 3 / 10], m_S := [1 / 50, 3 / 25, 3 / 10],
       m_summs := 7 / 20, m_nms := 5\<rparr>"
    unfolding small_store_full
    by (simp add: small_store_fields step_defs cut_def cut_loop.simps)
  finally show ?thesis .
qed

theorem C4_downsample_and_stride_witness:
  "(admission (run small_store (replicate 60 0 @ [1/10, 2/10, 3/10, 4/10])) (5/10)
      = Some (fst (gates (shift (run small_store (replicate 60 0 @ [1/10, 2/10, 3/10, 4/10])) (5/10))))
    \<and> m_nChange (track (fst (gates (shift (run small_store (replicate 60 0 @ [1/10, 2/10, 3/10, 4/10])) (5/10))))) \<le> 20
    \<and> MAXSTORE (run small_store (replicate 60 0 @ [1/10, 2/10, 3/10, 4/10]))
        \<le> length (m_D (run small_store (replicate 60 0 @ [1/10, 2/10, 3/10, 4/10]))))
   \<and> m_D (run small_store (replicate 60 0 @ [1/10, 2/10, 3/10, 4/10])) = [0, 0, 1 / 10, 1 / 5]
   \<and> m_D (store (track (fst (gates (shift (run small_store (replicate 60 0 @ [1/10, 2/10, 3/10, 4/10])) (5/10))))))
       = [0, 1 / 10, 3 / 10]
   \<and> nSkip (store (track (fst (gates (shift (run small_store (replicate 60 0 @ [1/10, 2/10, 3/10, 4/10])) (5/10))))))
       = 1
   \<and> (nJavaScriptSkip (run small_store (replicate 60 0 @ [1/10, 2/10, 3/10, 4/10, 5/10])) \<le> 0
      \<and> int (tight_calls (run small_store (replicate 60 0 @ [1/10, 2/10, 3/10, 4/10, 5/10])) [6/10])
         = nSkip (run small_store (replicate 60 0 @ [1/10, 2/10, 3/10, 4/10, 5/10])))
   \<and> m_D (run (run small_store (replicate 60 0 @ [1/10, 2/10, 3/10, 4/10, 5/10])) [6/10])
       = [0, 1 / 10, 3 / 10]
   \<and> snd (gates (shift (run (run small_store (replicate 60 0 @ [1/10, 2/10, 3/10, 4/10, 5/10])) [6/10]) (7/10)))"
proof -
  let ?s = "run small_store (replicate 60 0 @ [1/10, 2/10, 3/10, 4/10])"
  let ?u = "run small_store (replicate 60 0 @ [1/10, 2/10, 3/10, 4/10, 5/10])"
  have a: "admission ?s (5/10) = Some (fst (gates (shift ?s (5/10))))"
    unfolding small_store_full admission_Some
    by (simp add: small_store_fields grouping_def shift_def avems_def)
  have b: "m_nChange (track (fst (gates (shift ?s (5/10))))) \<le> 20"
    unfolding small_store_full
    by (simp add: track_fields bHzChanged_def gates_fields shift_fields small_store_fields)
  have c: "MAXSTORE ?s \<le> length (m_D ?s)" "m_D ?s = [0, 0, 1 / 10, 1 / 5]"
    "L3 ?s = 3 / 10" "nSkipBase ?s = 0"
    unfolding small_store_full by (simp_all add: small_store_fields)
  have d: "nJavaScriptSkip ?u \<le> 0 \<and> int (tight_calls ?u [6/10]) = nSkip ?u"
    unfolding small_store_cut
    by (simp add: small_store_fields grouping_def shift_def)
  have e: "m_D ?u = [0, 1 / 10, 3 / 10]"
    unfolding small_store_cut by (simp add: small_store_fields)
  note inst = C4_downsample_and_stride [of "m_D ?s" ?s "5/10" "fst (gates (shift ?s (5/10)))"
      ?u "[6/10]" "7/10"]
  from inst a b c(1) have r1:
    "m_D (store (track (fst (gates (shift ?s (5/10)))))) = cut (m_D ?s) @ [L3 ?s]"
    "nSkip (store (track (fst (gates (shift ?s (5/10)))))) = nSkipBase ?s * 2 + 1"
    by blast+
  from inst have r0: "cut (m_D ?s) = map (\<lambda>i. m_D ?s ! (2 * i)) [0..<(length (m_D ?s) + 1) div 2]"
    by (rule conjunct1)
  have r0': "cut [0, 0, 1 / 10, 1 / 5] = [0, 1 / (10::real)]"
    using r0 unfolding c by (simp add: upt_rec)
  have r2: "m_D (store (track (fst (gates (shift ?s (5/10)))))) = [0, 1 / 10, 3 / 10]"
    unfolding r1 c r0' by simp
  have r3: "nSkip (store (track (fst (gates (shift ?s (5/10)))))) = 1"
    unfolding r1 c by simp
  from d have d': "nJavaScriptSkip ?u \<le> 0 \<and> int (tight_calls ?u [6/10]) \<le> nSkip ?u"
    by simp
  from inst [THEN conjunct2, THEN conjunct2, THEN conjunct2, THEN conjunct1] d'
  have r4: "m_D (run ?u [6/10]) = m_D ?u"
    by blast
  from inst [THEN conjunct2, THEN conjunct2, THEN conjunct2, THEN conjunct2] d
  have r5: "snd (gates (shift (run ?u [6/10]) (7/10)))"
    by blast
  from a b c(1,2) r2 r3 d r4 r5 e show ?thesis by simp
qed

subsection \<open>Runs of equal timestamps\<close>

lemma track_ms:
  "m_ms (track s) =
     (if \<not> bHzChanged s \<and> m_ms s = 0 \<and> of_int (m_nms s + 1) > max 30 (grouping s * 60)
      then (m_summs s + avems s) / of_int (m_nms s + 1) else m_ms s)"
  by (simp add: track_def Let_def)

lemma revalidate_not_due: "\<not> validate_due s t \<Longrightarrow> revalidate s t = s"
  by (simp add: revalidate_def)

lemma add_flat_admit:
  assumes w: "L0 s = c" "L1 s = c" "L2 s = c" "L3 s = c" "L4 s = c"
    and k: "0 < TIGHTGROUPMS s" "0 < LOWESTVALIDHZ s" "0 \<le> MSCHANGE s"
    and g: "nJavaScriptSkip s \<le> 0" "nSkip s = 0" "nSkipBase s = 0"
    and m: "m_summs s = 0" "m_ms s = 0" "m_nChange s = 0"
    and l: "length (m_D s) < MAXSTORE s"
  shows "add s c = s\<lparr>cycleCount := cycleCount s + 1,
            nJavaScriptSkip := nJavaScriptSkip s - 1,
            m_D := m_D s @ [c], m_S := m_S s @ [c], m_nms := m_nms s + 1\<rparr>"
proof -
  let ?s1 = "fst (gates (shift s c))"
  have gr: "grouping (shift s c) = 0" "avems (shift s c) = 0"
    using w by (simp_all add: grouping_def avems_def shift_fields)
  have a: "admission s c = Some ?s1"
    unfolding admission_Some using gr k g by simp
  have nb: "\<not> bHzChanged ?s1"
    using gr k m by (simp add: bHzChanged_def gates_fields shift_fields)
  have tm: "m_ms (track ?s1) = 0"
    using gr m by (simp add: track_ms gates_fields shift_fields)
  have nd: "\<not> validate_due (store (track ?s1)) c"
    using tm by (simp add: validate_due_def store_fields)
  have "add s c = store (track ?s1)"
    using nb nd by (simp add: add_admission [OF a] track_fields revalidate_not_due)
  also have "\<dots> = s\<lparr>cycleCount := cycleCount s + 1,
            nJavaScriptSkip := nJavaScriptSkip s - 1,
            m_D := m_D s @ [c], m_S := m_S s @ [c], m_nms := m_nms s + 1\<rparr>"
    using w g m l nb gr tm
    by (intro rrc.equality) (simp_all add: store_fields track_fields gates_fields shift_fields)
  finally show ?thesis .
qed

lemma run_flat_admit:
  assumes "L0 s = c" "L1 s = c" "L2 s = c" "L3 s = c" "L4 s = c"
    and "0 < TIGHTGROUPMS s" "0 < LOWESTVALIDHZ s" "0 \<le> MSCHANGE s"
    and "nJavaScriptSkip s \<le> 0" "nSkip s = 0" "nSkipBase s = 0"
    and "m_summs s = 0" "m_ms s = 0" "m_nChange s = 0"
    and "length (m_D s) + n \<le> MAXSTORE s"
  shows "run s (replicate n c) = s\<lparr>cycleCount := cycleCount s + int n,
            nJavaScriptSkip := nJavaScriptSkip s - int n,
            m_D := m_D s @ replicate n c, m_S := m_S s @ replicate n c,
            m_nms := m_nms s + int n\<rparr>"
  using assms
proof (induction n arbitrary: s)
  case 0
  then show ?case by simp
next
  case (Suc n)
  have step: "add s c = s\<lparr>cycleCount := cycleCount s + 1,
            nJavaScriptSkip := nJavaScriptSkip s - 1,
            m_D := m_D s @ [c], m_S := m_S s @ [c], m_nms := m_nms s + 1\<rparr>"
    using Suc.prems by (intro add_flat_admit) simp_all
  show ?case
    using Suc.prems
    by (simp add: countCycle_def step Suc.IH add.assoc diff_diff_eq)
qed

lemma zeros11_state:
  "run constructor (replicate 71 0)
   = constructor\<lparr>cycleCount := 71, nJavaScriptSkip := - 11,
       m_D := replicate 11 0, m_S := replicate 11 0, m_nms := 11\<rparr>"
proof -
  have "replicate 71 (0::real) = replicate 60 0 @ replicate 11 0"
    by (simp flip: replicate_add)
  then have "run constructor (replicate 71 0)
      = run (constructor\<lparr>cycleCount := 60, nJavaScriptSkip := 0\<rparr>) (replicate 11 0)"
    by (simp only: run_append warm_state)
  also have "\<dots> = constructor\<lparr>cycleCount := 71, nJavaScriptSkip := - 11,
       m_D := replicate 11 0, m_S := replicate 11 0, m_nms := 11\<rparr>"
    using run_flat_admit [of "constructor\<lparr>cycleCount := 60, nJavaScriptSkip := 0\<rparr>" 0 11]
    by (simp add: constructor_fields)
  finally show ?thesis .
qed

subsection \<open>The cycle count\<close>

lemma replicate_11_zeros: "replicate 11 (0::real) = [0, 0, 0, 0, 0, 0, 0, 0, 0, 0, 0]"
  by (simp add: eval_nat_numeral)

lemma hz_change_state:
  "run constructor hz_change_input
   = constructor\<lparr>nJavaScriptSkip := - 31, cycleCount := 94, nSkipBase := 0, nSkip := 0,
      tUpdate := 0, L0 := 38, L1 := 40, L2 := 42, L3 := 44, L4 := 46, m_D := [0, 0, 0, 0, 0, 0, 0,
      0, 0, 0, 0, 4, 6, 8, 10, 12, 14, 16, 18, 20, 22, 24, 26, 28, 30, 32, 34, 36, 38, 40, 42],
      m_S := [0, 0, 0, 0, 0, 0, 0, 0, 0, 0, 0, 4, 6, 8, 10, 12, 14, 16, 18, 20, 22, 24, 26, 28,
      30, 32, 34, 36, 38, 40, 42], m_ms := 0, m_vi := None, m_tvsync := 0, m_summs := 0, m_nms :=
      11, m_nChange := 20\<rparr>"
proof -
  have "run constructor hz_change_input
      = run (run constructor (replicate 71 0))
          [2, 4, 6, 8, 10, 12, 14, 16, 18, 20, 22, 24, 26, 28, 30, 32, 34, 36, 38, 40, 42, 44, 46]"
    by (simp only: hz_change_input_def run_append)
  also have "\<dots> = constructor\<lparr>nJavaScriptSkip := - 31, cycleCount := 94, nSkipBase := 0, nSkip := 0,
      tUpdate := 0, L0 := 38, L1 := 40, L2 := 42, L3 := 44, L4 := 46, m_D := [0, 0, 0, 0, 0, 0, 0,
      0, 0, 0, 0, 4, 6, 8, 10, 12, 14, 16, 18, 20, 22, 24, 26, 28, 30, 32, 34, 36, 38, 40, 42],
      m_S := [0, 0, 0, 0, 0, 0, 0, 0, 0, 0, 0, 4, 6, 8, 10, 12, 14, 16, 18, 20, 22, 24, 26, 28,
      30, 32, 34, 36, 38, 40, 42], m_ms := 0, m_vi := None, m_tvsync := 0, m_summs := 0, m_nms :=
      11, m_nChange := 20\<rparr>"
    unfolding zeros11_state replicate_11_zeros
    by (simp add: constructor_fields step_defs)
  finally show ?thesis .
qed

lemma add_validator_input:
  "validator_input s t = Some v \<Longrightarrow>
   add s t = (case validate v of (s', ret) \<Rightarrow> s'\<lparr>m_vi := ret\<rparr>)"
  by (auto simp: validator_input_def add_admission revalidate_def Let_def
       split: option.splits if_splits)

lemma cycleCount_add:
  "cycleCount (add s t) = (if internal_reset s t then 0 else cycleCount s + 1)"
proof (cases "admission s t")
  case None
  then show ?thesis
    by (simp add: no_admission_fields internal_reset_def hz_reset_def drift_reset_def
          validator_input_def)
next
  case (Some s1)
  then have s1: "s1 = fst (gates (shift s t))" by (simp add: admission_Some)
  show ?thesis
  proof (cases "20 < m_nChange (track s1)")
    case True
    then show ?thesis
      using Some by (simp add: add_admission reset_fields internal_reset_def hz_reset_def)
  next
    case False
    have c3: "cycleCount (store (track s1)) = cycleCount s + 1"
      by (simp add: store_fields track_fields s1 gates_fields shift_fields)
    show ?thesis
    proof (cases "validate_due (store (track s1)) t")
      case nd: False
      then show ?thesis
        using Some False c3
        by (simp add: add_admission revalidate_not_due internal_reset_def hz_reset_def
              drift_reset_def validator_input_def Let_def)
    next
      case due: True
      let ?v = "(store (track s1))\<lparr>tUpdate := t\<rparr>"
      have vi: "validator_input s t = Some ?v"
        using Some False due by (simp add: validator_input_def Let_def)
      have ir: "internal_reset s t = (snd (validate ?v) = None)"
        using Some False vi by (simp add: internal_reset_def hz_reset_def drift_reset_def)
      have ad: "add s t = (case validate ?v of (s', ret) \<Rightarrow> s'\<lparr>m_vi := ret\<rparr>)"
        using vi by (rule add_validator_input)
      from validate_cases [of ?v] show ?thesis
      proof
        assume "validate ?v = (reset ?v, None)"
        then show ?thesis by (simp add: ad ir reset_fields)
      next
        assume "\<exists>mn mx. validate ?v
            = (?v\<lparr>m_ms := ols_m ?v, m_tvsync := timebase ?v + mn\<rparr>, Some (mn, mx))
          \<and> m_ms ?v \<noteq> 0 \<and> ols_den ?v \<noteq> 0
          \<and> drift (ols_m ?v) (timebase ?v) (m_D ?v) = Some (mn, mx)
          \<and> mx - mn < ols_m ?v / 2"
        then obtain mn mx where "validate ?v
            = (?v\<lparr>m_ms := ols_m ?v, m_tvsync := timebase ?v + mn\<rparr>, Some (mn, mx))"
          by blast
        then show ?thesis using c3 by (simp add: ad ir)
      qed
    qed
  qed
qed

lemma cycleCount_run:
  "reset_free s ts \<Longrightarrow> cycleCount (run s ts) = cycleCount s + int (length ts)"
  by (induction ts arbitrary: s) (simp_all add: countCycle_def cycleCount_add)

text \<open>
  Claim C8, amended. \<^verbatim>\<open>getCount\<close> counts the \<^verbatim>\<open>countCycle\<close> invocations since
  the last reset of the object, whether by \<^verbatim>\<open>restartMeasuring\<close> or by an internal
  reset: a call that ends in an internal reset (change of Hz confirmed, or excessive
  drift in the validator) sets it to 0, every other call adds exactly one. Over a run
  with no internal reset it grows by the number of calls, and from a new object it
  equals the number of calls made.
\<close>

theorem C8_count_since_reset:
  "getCount (countCycle t s) = (if internal_reset s t then 0 else getCount s + 1)
   \<and> (reset_free s ts \<longrightarrow> getCount (run s ts) = getCount s + int (length ts))
   \<and> (reset_free constructor ts \<longrightarrow> getCount (run constructor ts) = int (length ts))
   \<and> getCount (restartMeasuring s) = 0"
  by (simp add: getCount_def countCycle_def cycleCount_add cycleCount_run
        restartMeasuring_def reset_fields constructor_fields)

text \<open>After 71 equal timestamps the running mean holds eleven samples of 0 ms; steps of
  2 ms then deviate, and the 21st deviating admission, which is the 95th call, resets the
  object: the count falls from 94 to 0.\<close>

theorem C8_counterexample:
  "getCount (run constructor hz_change_input) = 94
   \<and> getCount (countCycle 48 (run constructor hz_change_input)) = 0
   \<and> getCount (run constructor (hz_change_input @ [48])) \<noteq> int (length (hz_change_input @ [48]))"
proof -
  have a: "getCount (run constructor hz_change_input) = 94"
    unfolding hz_change_state by (simp add: getCount_def)
  have b: "getCount (countCycle 48 (run constructor hz_change_input)) = 0"
    unfolding hz_change_state
    by (simp add: getCount_def constructor_fields step_defs)
  have c: "run constructor (hz_change_input @ [48]) = countCycle 48 (run constructor hz_change_input)"
    by (simp add: run_append)
  have d: "length (hz_change_input @ [48]) = 95"
    by (simp add: hz_change_input_def)
  show ?thesis using a b unfolding c d by simp
qed

theorem C8_count_since_reset_witness:
  "reset_free constructor [0, 0, 0] \<and> getCount (run constructor [0, 0, 0]) = 3"
proof -
  have h: "reset_free constructor [0, 0, 0]"
    by (simp add: internal_reset_def hz_reset_def drift_reset_def validator_input_def
          admission_def constructor_fields step_defs)
  from h C8_count_since_reset [of 0 constructor "[0, 0, 0]"] show ?thesis by simp
qed

subsection \<open>The least-squares denominator\<close>





























subsection \<open>The accessors\<close>
















subsection \<open>The validator\<close>






lemma sum_list_zip_snd:
  "length xs = length ys \<Longrightarrow> (\<Sum>(X, Y)\<leftarrow>zip xs ys. f Y) = (\<Sum>Y\<leftarrow>ys. f Y)"
  by (induction xs ys rule: list_induct2) simp_all






















end
